theory Spec2Isabelle
  imports
    Main
    "HOL-Library.Char_ord"
    "HOL-Library.List_Lexorder"
    "HOL-Library.Sublist"
    "HOL-Library.Multiset"
begin

section \<open>Go code generation helpers of package design (codegen.go)\<close>

text \<open>
  A shallow embedding of \<^verbatim>\<open>design/codegen.go\<close>: the identifier sanitizer
  \<^verbatim>\<open>Goify\<close> with its table \<^verbatim>\<open>reserved\<close>, and the three type lowering
  functions \<^verbatim>\<open>GoTypeName\<close>, \<^verbatim>\<open>TypeDef\<close> and \<^verbatim>\<open>SourceCode\<close>.

  A Go \<^verbatim>\<open>string\<close> is a sequence of bytes: it is a \<open>string\<close> (a list of 8-bit
  \<open>char\<close>) here, and \<^verbatim>\<open>str[i]\<close> is the i-th byte. A \<^verbatim>\<open>panic\<close> is a value:
  the lowering functions return \<open>panic + string\<close>, \<open>Inl\<close> for a panic.
\<close>

subsection \<open>The standard library functions Goify calls\<close>

text \<open>
  \<^verbatim>\<open>Goify\<close> converts each byte to a rune (\<^verbatim>\<open>r := rune(str[i])\<close>), so the runes it
  tests are the Latin-1 code points 0 to 255. Go's \<^verbatim>\<open>unicode.IsLetter\<close>,
  \<^verbatim>\<open>unicode.IsDigit\<close>, \<^verbatim>\<open>unicode.ToUpper\<close> and \<^verbatim>\<open>unicode.ToLower\<close> are written
  out on that range from the Latin-1 property table and the case ranges of Go's
  \<^verbatim>\<open>unicode\<close> package. \<^verbatim>\<open>ToUpper\<close> leaves the range at two points: U+00B5 goes to
  U+039C and U+00FF to U+0178, both letters, which is all \<open>IsLetter\<close> says beyond 255.
  A rune is Go's \<^verbatim>\<open>int32\<close>; no arithmetic here leaves 0 to 0x39C, so it is an
  \<open>int\<close>.
\<close>

type_synonym rune = int

definition rune_of :: "char \<Rightarrow> rune" where
  "rune_of c = of_char c"

definition IsLetter :: "rune \<Rightarrow> bool" where
  "IsLetter r \<longleftrightarrow>
     (0x41 \<le> r \<and> r \<le> 0x5A) \<or> (0x61 \<le> r \<and> r \<le> 0x7A) \<or>
     r = 0xAA \<or> r = 0xB5 \<or> r = 0xBA \<or>
     (0xC0 \<le> r \<and> r \<le> 0xD6) \<or> (0xD8 \<le> r \<and> r \<le> 0xF6) \<or>
     (0xF8 \<le> r \<and> r \<le> 0xFF) \<or> r = 0x178 \<or> r = 0x39C"

definition IsDigit :: "rune \<Rightarrow> bool" where
  "IsDigit r \<longleftrightarrow> 0x30 \<le> r \<and> r \<le> 0x39"

definition ToUpper :: "rune \<Rightarrow> rune" where
  "ToUpper r =
     (if r \<le> 0x7F then (if 0x61 \<le> r \<and> r \<le> 0x7A then r - 0x20 else r)
      else if r = 0xB5 then 0x39C
      else if (0xE0 \<le> r \<and> r \<le> 0xF6) \<or> (0xF8 \<le> r \<and> r \<le> 0xFE) then r - 0x20
      else if r = 0xFF then 0x178
      else r)"

definition ToLower :: "rune \<Rightarrow> rune" where
  "ToLower r =
     (if r \<le> 0x7F then (if 0x41 \<le> r \<and> r \<le> 0x5A then r + 0x20 else r)
      else if (0xC0 \<le> r \<and> r \<le> 0xD6) \<or> (0xD8 \<le> r \<and> r \<le> 0xDE) then r + 0x20
      else r)"

text \<open>
  \<^verbatim>\<open>bytes.Buffer.WriteRune\<close> appends the UTF-8 encoding of the rune: one byte below
  0x80, two bytes below 0x800 (\<^verbatim>\<open>0xC0 | r>>6\<close> and \<^verbatim>\<open>0x80 | r&0x3F\<close>, sums
  here since the bits do not overlap), three bytes from there on. \<^verbatim>\<open>Goify\<close>
  writes runes from 0 to 0x39C only, so surrogates and runes of four bytes are
  left out. The buffer is the list of bytes written so far.
\<close>

definition WriteRune :: "string \<Rightarrow> rune \<Rightarrow> string" where
  "WriteRune buf r =
     (if r < 0x80 then buf @ [char_of r]
      else if r < 0x800 then buf @ [char_of (0xC0 + r div 0x40), char_of (0x80 + r mod 0x40)]
      else buf @ [char_of (0xE0 + r div 0x1000), char_of (0x80 + (r div 0x40) mod 0x40),
                  char_of (0x80 + r mod 0x40)])"

subsection \<open>The reserved words and Goify\<close>

text \<open>
  The map literal \<^verbatim>\<open>reserved\<close>: its entries, 16 predeclared type names and 25
  keywords, each with the value \<^verbatim>\<open>true\<close>, and the map they make. \<^verbatim>\<open>Goify\<close>
  only asks whether a key is present.
\<close>

definition reserved_entries :: "(string \<times> bool) list" where
  "reserved_entries =
    [(''byte'', True), (''complex128'', True), (''complex64'', True), (''float32'', True),
     (''float64'', True), (''int'', True), (''int16'', True), (''int32'', True),
     (''int64'', True), (''int8'', True), (''rune'', True), (''string'', True),
     (''uint16'', True), (''uint32'', True), (''uint64'', True), (''uint8'', True),
     (''break'', True), (''case'', True), (''chan'', True), (''const'', True),
     (''continue'', True), (''default'', True), (''defer'', True), (''else'', True),
     (''fallthrough'', True), (''for'', True), (''func'', True), (''go'', True),
     (''goto'', True), (''if'', True), (''import'', True), (''interface'', True),
     (''map'', True), (''package'', True), (''range'', True), (''return'', True),
     (''select'', True), (''struct'', True), (''switch'', True), (''type'', True),
     (''var'', True)]"

definition reserved :: "string \<rightharpoonup> bool" where
  "reserved = map_of reserved_entries"

text \<open>
  The local variables of \<^verbatim>\<open>Goify\<close>: the buffer \<^verbatim>\<open>b\<close> and the two flags.
  \<open>Goify_step\<close> is the body of the \<^verbatim>\<open>for\<close> loop at one byte, \<open>Goify_loop\<close> the
  whole loop from the zero values of the variables, and \<open>Goify\<close> the function: the
  loop, the placeholder for an empty buffer, and the suffix for a reserved word.
\<close>

record goify_state =
  b :: string
  firstWritten :: bool
  nextUpper :: bool

definition Goify_step :: "bool \<Rightarrow> goify_state \<Rightarrow> char \<Rightarrow> goify_state" where
  "Goify_step firstUpper st c =
     (let r = rune_of c in
      if r = rune_of (CHR ''_'') then st\<lparr>nextUpper := True\<rparr>
      else if IsLetter r \<or> IsDigit r then
        (if \<not> firstWritten st then
           (let r' = (if firstUpper then ToUpper r else ToLower r)
            in st\<lparr>b := WriteRune (b st) r', firstWritten := True, nextUpper := False\<rparr>)
         else if nextUpper st then
           st\<lparr>b := WriteRune (b st) (ToUpper r), nextUpper := False\<rparr>
         else st\<lparr>b := WriteRune (b st) r\<rparr>)
      else st)"

definition Goify_loop :: "string \<Rightarrow> bool \<Rightarrow> goify_state" where
  "Goify_loop str firstUpper =
     foldl (Goify_step firstUpper) \<lparr>b = [], firstWritten = False, nextUpper = False\<rparr> str"

definition Goify :: "string \<Rightarrow> bool \<Rightarrow> string" where
  "Goify str firstUpper =
     (let st = Goify_loop str firstUpper in
      if length (b st) = 0 then ''_v''
      else (let res = b st in
            if reserved res \<noteq> None then res @ ''_'' else res))"

text \<open>
  Two parts of the loop body, named for the statements below: \<open>kept\<close> is the test
  of its second branch (the byte is a letter or a digit), and \<open>written\<close> is the
  rune that this branch writes in a given state.
\<close>

definition kept :: "char \<Rightarrow> bool" where
  "kept c \<longleftrightarrow> IsLetter (rune_of c) \<or> IsDigit (rune_of c)"

definition written :: "bool \<Rightarrow> goify_state \<Rightarrow> char \<Rightarrow> rune" where
  "written firstUpper st c =
     (if \<not> firstWritten st then (if firstUpper then ToUpper (rune_of c) else ToLower (rune_of c))
      else if nextUpper st then ToUpper (rune_of c) else rune_of c)"

subsection \<open>The type model\<close>

text \<open>
  Modelled from the spec: the declarations of \<^verbatim>\<open>Kind\<close>, \<^verbatim>\<open>Primitive\<close>,
  \<^verbatim>\<open>Array\<close>, \<^verbatim>\<open>Object\<close>, \<^verbatim>\<open>UserTypeDefinition\<close>, \<^verbatim>\<open>MediaTypeDefinition\<close>,
  \<^verbatim>\<open>AttributeDefinition\<close> with its method \<^verbatim>\<open>IsRequired\<close>, and the interface
  \<^verbatim>\<open>DataStructure\<close> with its method \<^verbatim>\<open>Definition\<close> are in other files of the
  package. From the data model of the spec and the way codegen.go uses them:

  \<^item> a primitive carries a kind; beside the four kinds \<^verbatim>\<open>GoTypeName\<close> knows,
    \<open>OtherKind\<close> stands for every other value of the kind type;
  \<^item> an array holds the attribute of its elements (\<^verbatim>\<open>ElemType\<close>);
  \<^item> an object is a Go map from field names to attributes. It is the list of its
    entries in the order in which \<^verbatim>\<open>range\<close> visits them, which Go leaves
    unspecified; the keys of a map are distinct, and \<open>map_of\<close> is the lookup;
  \<^item> a named type (user or media type) carries its name and a reference to the
    attribute that defines it, the address of that attribute in a store of
    definitions: named types refer to each other by reference and may do so in
    cycles, while the anonymous part below an attribute (array elements, object
    fields) is a finite tree;
  \<^item> \<open>OtherType\<close> stands for every other dynamic type of the interface
    \<^verbatim>\<open>DataType\<close>, the one the \<^verbatim>\<open>default\<close> branches are for;
  \<^item> an attribute has its \<^verbatim>\<open>Type\<close> and the predicate \<^verbatim>\<open>IsRequired\<close> on field
    names, which is any predicate. Pointers to attributes are not nil;
  \<^item> an attribute is a data structure, and it is its own \<^verbatim>\<open>Definition\<close>.
\<close>

datatype Kind = BooleanKind | IntegerKind | NumberKind | StringKind | OtherKind nat

type_synonym addr = nat

datatype DataType =
    Primitive Kind
  | Array AttributeDefinition
  | Object "(string \<times> AttributeDefinition) list"
  | UserTypeDefinition string addr
  | MediaTypeDefinition string addr
  | OtherType
and AttributeDefinition =
    AttributeDefinition (Type: DataType) (IsRequired: "string \<Rightarrow> bool")

type_synonym store = "addr \<rightharpoonup> AttributeDefinition"

text \<open>
  The three panics of the file, by their messages, and the runtime panic of a nil
  pointer (\<^verbatim>\<open>actual[name]\<close> is nil for a name that is not a key of the map).
\<close>

datatype panic =
    UnknownDataStructureType
  | UnknownPrimitiveType Kind
  | UnknownType
  | NilDereference

subsection \<open>GoTypeName, TypeDef and SourceCode\<close>

fun GoTypeName :: "DataType \<Rightarrow> panic + string" where
  "GoTypeName (Primitive actual) =
     (case actual of
        BooleanKind \<Rightarrow> Inr ''bool''
      | IntegerKind \<Rightarrow> Inr ''int''
      | NumberKind \<Rightarrow> Inr ''float64''
      | StringKind \<Rightarrow> Inr ''string''
      | OtherKind k \<Rightarrow> Inl (UnknownPrimitiveType actual))"
| "GoTypeName (Array (AttributeDefinition t req)) =
     (case GoTypeName t of
        Inl p \<Rightarrow> Inl p
      | Inr s \<Rightarrow> Inr (''[]'' @ s))"
| "GoTypeName (Object actual) = Inr ''map[string]interface{}''"
| "GoTypeName (UserTypeDefinition Name ref) = Inr (Goify Name True)"
| "GoTypeName (MediaTypeDefinition Name ref) = Inr (Goify Name True)"
| "GoTypeName OtherType = Inl UnknownType"

text \<open>
  \<^verbatim>\<open>SourceCode\<close> takes a \<^verbatim>\<open>DataStructure\<close> and starts with
  \<^verbatim>\<open>def := ds.Definition()\<close>, the only use it makes of \<^verbatim>\<open>ds\<close>; every call in
  this file passes an attribute, which is its own definition, so the argument here
  is \<^verbatim>\<open>def\<close>. \<open>SourceCode_fields\<close> is
  the second \<^verbatim>\<open>for\<close> loop of the \<^verbatim>\<open>Object\<close> case, over the sorted keys, with the
  buffer written so far; a panic of \<^verbatim>\<open>TypeDef\<close> ends it. \<^verbatim>\<open>sort.Strings\<close> sorts
  by Go's \<^verbatim>\<open><\<close> on strings, the lexicographic order of the bytes, which is the
  order of \<open>string\<close> here. \<^verbatim>\<open>TypeDef\<close> has no \<^verbatim>\<open>default\<close> branch: for another
  type \<^verbatim>\<open>typedef\<close> keeps its zero value, the empty string.
\<close>

function SourceCode :: "AttributeDefinition \<Rightarrow> panic + string"
  and SourceCode_fields ::
    "AttributeDefinition \<Rightarrow> (string \<times> AttributeDefinition) list \<Rightarrow> string list \<Rightarrow> string
       \<Rightarrow> panic + string"
  and TypeDef :: "AttributeDefinition \<Rightarrow> panic + string"
where
  "SourceCode def =
     (case Type def of
        Primitive k \<Rightarrow> GoTypeName (Type def)
      | Array ElemType \<Rightarrow>
          (case SourceCode ElemType of Inl p \<Rightarrow> Inl p | Inr s \<Rightarrow> Inr (''[]'' @ s))
      | Object actual \<Rightarrow>
          (case SourceCode_fields def actual (sort (map fst actual)) ''struct {\<newline>'' of
             Inl p \<Rightarrow> Inl p
           | Inr buffer \<Rightarrow> Inr (buffer @ ''}''))
      | _ \<Rightarrow> Inl UnknownDataStructureType)"
| "SourceCode_fields def actual [] buffer = Inr buffer"
| "SourceCode_fields def actual (name # keys) buffer =
     (case map_of actual name of
        None \<Rightarrow> Inl NilDereference
      | Some a \<Rightarrow>
          (case TypeDef a of
             Inl p \<Rightarrow> Inl p
           | Inr typedef \<Rightarrow>
               (let fname = Goify name True;
                    omit = (if \<not> IsRequired def name then '',omitempty'' else '''');
                    field = [CHR 0x09] @ fname @ '' '' @ typedef @ '' '' @ [CHR 0x60] @ ''json:''
                      @ [CHR 0x22] @ name @ omit @ [CHR 0x22, CHR 0x60] @ ''\<newline>''
                in SourceCode_fields def actual keys (buffer @ field))))"
| "TypeDef a =
     (case Type a of
        Primitive k \<Rightarrow> GoTypeName (Type a)
      | Array ElemType \<Rightarrow>
          (case TypeDef ElemType of Inl p \<Rightarrow> Inl p | Inr s \<Rightarrow> Inr (''[]'' @ s))
      | Object actual \<Rightarrow> SourceCode a
      | UserTypeDefinition Name ref \<Rightarrow>
          (case GoTypeName (Type a) of Inl p \<Rightarrow> Inl p | Inr s \<Rightarrow> Inr (''*'' @ s))
      | MediaTypeDefinition Name ref \<Rightarrow>
          (case GoTypeName (Type a) of Inl p \<Rightarrow> Inl p | Inr s \<Rightarrow> Inr (''*'' @ s))
      | OtherType \<Rightarrow> Inr '''')"
  by pat_completeness auto
termination
proof (relation "measures [
    (\<lambda>x. case x of Inl def \<Rightarrow> size def
                 | Inr (Inl (def, actual, keys, buffer)) \<Rightarrow> size (Object actual)
                 | Inr (Inr a) \<Rightarrow> size a),
    (\<lambda>x. case x of Inl def \<Rightarrow> 1
                 | Inr (Inl (def, actual, keys, buffer)) \<Rightarrow> 0
                 | Inr (Inr a) \<Rightarrow> 2),
    (\<lambda>x. case x of Inl def \<Rightarrow> 0
                 | Inr (Inl (def, actual, keys, buffer)) \<Rightarrow> length keys
                 | Inr (Inr a) \<Rightarrow> 0)]", goal_cases)
  case 1
  show ?case by simp
next
  case (2 d x)
  then show ?case by (cases d) simp
next
  case (3 d x)
  then show ?case by (cases d) simp
next
  case (4 d actual name keys buffer a)
  have "(n, v) \<in> set xs \<Longrightarrow> size v < Suc (size_list (size_prod (\<lambda>x. 0) size) xs)"
    for n and v :: AttributeDefinition and xs :: "(string \<times> AttributeDefinition) list"
    by (induction xs) auto
  with 4 show ?case by (auto dest!: map_of_SomeD)
next
  case 5
  then show ?case by simp
next
  case (6 a x)
  then show ?case by (cases a) simp
next
  case 7
  then show ?case by simp
qed

text \<open>
  Two named types that refer to each other, as the store of their definitions: the
  user type A at address 1 is an object whose field \<open>b\<close> is a reference to B, and B
  at address 2 is an object whose field \<open>a\<close> is a reference to A.
\<close>

definition mutual_store :: store where
  "mutual_store = [
     1 \<mapsto> AttributeDefinition
           (Object [(''b'', AttributeDefinition (UserTypeDefinition ''B'' 2) (\<lambda>n. False))])
           (\<lambda>n. n = ''b''),
     2 \<mapsto> AttributeDefinition
           (Object [(''a'', AttributeDefinition (UserTypeDefinition ''A'' 1) (\<lambda>n. False))])
           (\<lambda>n. False)]"

section \<open>Type lowering: primitives, named types, unknown types\<close>

text \<open>
  C3. A primitive lowers to the name of its Go scalar type: \<open>bool\<close> for Boolean,
  \<open>int\<close> for Integer, \<open>float64\<close> for Number and \<open>string\<close> for String, in
  \<open>GoTypeName\<close> and so in both \<open>TypeDef\<close> and \<open>SourceCode\<close>, which hand a
  primitive to it; every other kind is a panic.
\<close>

theorem GoTypeName_Primitive_kinds:
  "GoTypeName (Primitive BooleanKind) = Inr ''bool'' \<and>
   GoTypeName (Primitive IntegerKind) = Inr ''int'' \<and>
   GoTypeName (Primitive NumberKind) = Inr ''float64'' \<and>
   GoTypeName (Primitive StringKind) = Inr ''string'' \<and>
   GoTypeName (Primitive (OtherKind n)) = Inl (UnknownPrimitiveType (OtherKind n)) \<and>
   TypeDef (AttributeDefinition (Primitive k) req) = GoTypeName (Primitive k) \<and>
   SourceCode (AttributeDefinition (Primitive k) req) = GoTypeName (Primitive k)"
  by simp

text \<open>
  C7. The reference form of a named type, user or media, is \<open>*\<close> followed by
  \<open>Goify\<close> of its name with the first letter in upper case; the bare name is that
  identifier. Neither depends on the reference \<open>ref\<close> to the definition of the
  type: the definition is never read, so nothing of it is inlined and the lowering
  returns whatever the store holds there, a cycle of named types included.
\<close>

theorem TypeDef_named_type_reference:
  "TypeDef (AttributeDefinition (UserTypeDefinition name ref) req) = Inr (''*'' @ Goify name True) \<and>
   TypeDef (AttributeDefinition (MediaTypeDefinition name ref) req) = Inr (''*'' @ Goify name True) \<and>
   GoTypeName (UserTypeDefinition name ref) = Inr (Goify name True) \<and>
   GoTypeName (MediaTypeDefinition name ref) = Inr (Goify name True)"
  by simp

text \<open>
  In the store of the two types that refer to each other, the definition of each
  lowers to a struct whose field is a pointer to the other by its name.
\<close>

theorem TypeDef_named_type_reference_witness:
  "TypeDef (AttributeDefinition (UserTypeDefinition ''B'' 2) (\<lambda>n. False)) = Inr ''*B'' \<and>
   TypeDef (AttributeDefinition (UserTypeDefinition ''A'' 1) (\<lambda>n. False)) = Inr ''*A'' \<and>
   map_option SourceCode (mutual_store 1) =
     Some (Inr (''struct {\<newline>'' @ [CHR 0x09] @ ''B *B '' @ [CHR 0x60] @ ''json:'' @ [CHR 0x22]
       @ ''b'' @ [CHR 0x22, CHR 0x60] @ ''\<newline>}'')) \<and>
   map_option SourceCode (mutual_store 2) =
     Some (Inr (''struct {\<newline>'' @ [CHR 0x09] @ ''A *A '' @ [CHR 0x60] @ ''json:'' @ [CHR 0x22]
       @ ''a,omitempty'' @ [CHR 0x22, CHR 0x60] @ ''\<newline>}''))"
proof -
  have A: "Goify ''A'' True = ''A''" and B: "Goify ''B'' True = ''B''"
    and a: "Goify ''a'' True = ''A''" and b: "Goify ''b'' True = ''B''"
    by code_simp+
  show ?thesis
    using TypeDef_named_type_reference [of "''B''" 2 "\<lambda>n. False"]
      TypeDef_named_type_reference [of "''A''" 1 "\<lambda>n. False"]
    by (simp add: mutual_store_def A B a b)
qed

text \<open>
  C8. For a type outside the recognized set \<open>SourceCode\<close> panics, and so does
  \<open>GoTypeName\<close>; \<open>TypeDef\<close> does not: its switch has no default branch, and it
  returns the empty string.
\<close>

theorem TypeDef_unrecognized_returns_empty:
  "TypeDef (AttributeDefinition OtherType req) = Inr [] \<and>
   SourceCode (AttributeDefinition OtherType req) = Inl UnknownDataStructureType \<and>
   GoTypeName OtherType = Inl UnknownType"
  by simp

text \<open>
  C10. \<open>SourceCode\<close> of an attribute whose type is a user type or a media type
  takes the default branch and panics, as for every type that is not a primitive,
  an array or an object: where it returns a text, the type is one of these three.
  The bare name of an object is the fixed \<open>map[string]interface{}\<close>, not a struct.
\<close>

theorem SourceCode_accepts:
  "SourceCode (AttributeDefinition (UserTypeDefinition name ref) req) = Inl UnknownDataStructureType \<and>
   SourceCode (AttributeDefinition (MediaTypeDefinition name ref) req) = Inl UnknownDataStructureType \<and>
   SourceCode (AttributeDefinition OtherType req) = Inl UnknownDataStructureType \<and>
   (SourceCode def = Inr s \<longrightarrow>
      (\<exists>k. Type def = Primitive k) \<or> (\<exists>e. Type def = Array e) \<or> (\<exists>fs. Type def = Object fs)) \<and>
   GoTypeName (Object actual) = Inr ''map[string]interface{}''"
  by (cases def; cases "Type def") (auto split: sum.splits)

theorem SourceCode_accepts_witness:
  "SourceCode (AttributeDefinition (Array (AttributeDefinition (Primitive StringKind) (\<lambda>n. False)))
      (\<lambda>n. False)) = Inr ''[]string'' \<and>
   (\<exists>e. Type (AttributeDefinition (Array (AttributeDefinition (Primitive StringKind) (\<lambda>n. False)))
      (\<lambda>n. False)) = Array e) \<and>
   SourceCode (AttributeDefinition (UserTypeDefinition ''user'' 0) (\<lambda>n. False))
     = Inl UnknownDataStructureType"
  using SourceCode_accepts [of "''user''" 0 "\<lambda>n. False"
      "AttributeDefinition (Array (AttributeDefinition (Primitive StringKind) (\<lambda>n. False))) (\<lambda>n. False)"
      "''[]string''"]
  by simp

section \<open>Goify\<close>

subsection \<open>Runes and bytes\<close>

lemma WriteRune_append: "WriteRune buf r = buf @ WriteRune [] r"
  by (simp add: WriteRune_def)

lemma WriteRune_not_Nil: "WriteRune buf r \<noteq> []"
  by (simp add: WriteRune_def)

lemma rune_of_range: "0 \<le> rune_of c \<and> rune_of c < 256"
proof -
  have "(of_char c :: nat) < 256" by (rule nat_of_char_less_256)
  moreover have "(of_char c :: int) = int (of_char c)" by (simp add: of_char_def)
  ultimately show ?thesis unfolding rune_of_def by simp
qed

lemma rune_of_underscore: "rune_of c = rune_of (CHR ''_'') \<longleftrightarrow> c = CHR ''_''"
  unfolding rune_of_def by (rule of_char_eq_iff)

lemma kept_not_underscore: "kept c \<Longrightarrow> c \<noteq> CHR ''_''"
  by (auto simp: kept_def rune_of_def IsLetter_def IsDigit_def)

lemma ToUpper_range: "0 \<le> r \<Longrightarrow> r < 256 \<Longrightarrow> 0 \<le> ToUpper r \<and> ToUpper r < 0x800"
  unfolding ToUpper_def by (simp split: if_splits)

lemma ToLower_range: "0 \<le> r \<Longrightarrow> r < 256 \<Longrightarrow> 0 \<le> ToLower r \<and> ToLower r < 0x800"
  unfolding ToLower_def by (simp split: if_splits)

lemma ToUpper_Letter: "r < 256 \<Longrightarrow> IsLetter r \<Longrightarrow> IsLetter (ToUpper r)"
  unfolding ToUpper_def IsLetter_def by (auto split: if_splits)

lemma ToLower_Letter: "r < 256 \<Longrightarrow> IsLetter r \<Longrightarrow> IsLetter (ToLower r)"
  unfolding ToLower_def IsLetter_def by (auto split: if_splits)

lemma ToUpper_Digit: "IsDigit r \<Longrightarrow> ToUpper r = r"
  unfolding ToUpper_def IsDigit_def by simp

lemma ToLower_Digit: "IsDigit r \<Longrightarrow> ToLower r = r"
  unfolding ToLower_def IsDigit_def by simp

lemma WriteRune_bytes:
  assumes "x \<in> set (WriteRune [] r)" and "0 \<le> r" and "r < 0x800"
  shows "(r < 0x80 \<and> (of_char x :: int) = r) \<or> (0x80 \<le> r \<and> 0x80 \<le> (of_char x :: int))"
proof (cases "r < 0x80")
  case True
  with assms show ?thesis by (simp add: WriteRune_def)
next
  case False
  have "r div 0x40 < 0x20" "0 \<le> r div 0x40" using assms by simp_all
  then have a: "(0xC0 + r div 0x40) mod 256 = 0xC0 + r div 0x40" by simp
  have "r mod 0x40 < 0x40" "0 \<le> r mod 0x40" by simp_all
  then have b: "(0x80 + r mod 0x40) mod 256 = 0x80 + r mod 0x40" by simp
  from False assms a b show ?thesis
    by (auto simp: WriteRune_def)
qed

lemma Goify_step_underscore:
  "Goify_step u st (CHR ''_'') = st\<lparr>nextUpper := True\<rparr>"
  by (simp add: Goify_step_def)

lemma Goify_step_dropped:
  "\<not> kept c \<Longrightarrow> c \<noteq> CHR ''_'' \<Longrightarrow> Goify_step u st c = st"
  by (simp add: Goify_step_def kept_def rune_of_underscore Let_def)

lemma Goify_step_kept:
  "kept c \<Longrightarrow> Goify_step u st c =
     st\<lparr>b := WriteRune (b st) (written u st c), firstWritten := True, nextUpper := False\<rparr>"
  by (frule kept_not_underscore)
     (auto simp add: Goify_step_def kept_def rune_of_underscore Let_def written_def)

lemma written_range:
  "kept c \<Longrightarrow> 0 \<le> written u st c \<and> written u st c < 0x800 \<and>
     (IsLetter (written u st c) \<or> IsDigit (written u st c))"
  using rune_of_range [of c] ToUpper_range [of "rune_of c"] ToLower_range [of "rune_of c"]
    ToUpper_Letter [of "rune_of c"] ToLower_Letter [of "rune_of c"]
    ToUpper_Digit [of "rune_of c"] ToLower_Digit [of "rune_of c"]
  by (auto simp: written_def kept_def)


lemma written_no_underscore:
  assumes "kept c" and "x \<in> set (WriteRune [] (written u st c))"
  shows "x \<noteq> CHR ''_''"
proof
  assume "x = CHR ''_''"
  then have x: "(of_char x :: int) = 0x5F" by simp
  from written_range [OF assms(1), of u st] WriteRune_bytes [OF assms(2)]
  have "(written u st c < 0x80 \<and> (of_char x :: int) = written u st c) \<or> 0x80 \<le> (of_char x :: int)"
    by auto
  with x have "written u st c = 0x5F" by auto
  with written_range [OF assms(1), of u st] show False
    by (simp add: IsLetter_def IsDigit_def)
qed

lemma Goify_step_no_underscore:
  "CHR ''_'' \<notin> set (b st) \<Longrightarrow> CHR ''_'' \<notin> set (b (Goify_step u st c))"
proof (cases "kept c")
  case True
  assume "CHR ''_'' \<notin> set (b st)"
  with True written_no_underscore [OF True, of "CHR ''_''" u st] show ?thesis
    by (auto simp: Goify_step_kept WriteRune_append [of "b st"])
next
  case False
  assume "CHR ''_'' \<notin> set (b st)"
  with False show ?thesis
    by (cases "c = CHR ''_''") (simp_all add: Goify_step_underscore Goify_step_dropped)
qed

lemma Goify_fold_no_underscore:
  "CHR ''_'' \<notin> set (b st) \<Longrightarrow> CHR ''_'' \<notin> set (b (foldl (Goify_step u) st s))"
  by (induction s arbitrary: st) (simp_all add: Goify_step_no_underscore)

lemma Goify_loop_no_underscore: "CHR ''_'' \<notin> set (b (Goify_loop s u))"
  by (simp add: Goify_loop_def Goify_fold_no_underscore)

lemma Goify_step_prefix: "prefix (b st) (b (Goify_step u st c))"
proof (cases "kept c")
  case True
  then show ?thesis by (simp add: Goify_step_kept WriteRune_append [of "b st"])
next
  case False
  then show ?thesis
    by (cases "c = CHR ''_''") (simp_all add: Goify_step_underscore Goify_step_dropped)
qed

lemma Goify_fold_prefix: "prefix (b st) (b (foldl (Goify_step u) st s))"
proof (induction s arbitrary: st)
  case Nil
  show ?case by simp
next
  case (Cons c s)
  have "prefix (b st) (b (Goify_step u st c))" by (rule Goify_step_prefix)
  also have "prefix \<dots> (b (foldl (Goify_step u) (Goify_step u st c) s))" by (rule Cons.IH)
  finally show ?case by simp
qed

lemma Goify_fold_dropped:
  "\<forall>k \<in> set s. \<not> kept k \<Longrightarrow>
   foldl (Goify_step u) st s = st\<lparr>nextUpper := nextUpper st \<or> CHR ''_'' \<in> set s\<rparr>"
proof (induction s arbitrary: st)
  case Nil
  show ?case by simp
next
  case (Cons c s)
  then show ?case
    by (cases "c = CHR ''_''") (auto simp: Goify_step_underscore Goify_step_dropped)
qed

lemma Goify_fold_firstWritten:
  "firstWritten (foldl (Goify_step u) st s) \<longleftrightarrow> firstWritten st \<or> (\<exists>k \<in> set s. kept k)"
proof (induction s arbitrary: st)
  case Nil
  show ?case by simp
next
  case (Cons c s)
  show ?case
  proof (cases "kept c")
    case True
    then show ?thesis by (simp add: Cons.IH Goify_step_kept)
  next
    case False
    then show ?thesis
      by (cases "c = CHR ''_''") (simp_all add: Cons.IH Goify_step_underscore Goify_step_dropped)
  qed
qed



subsection \<open>The reserved words\<close>

lemma reserved_all1:
  "list_all (\<lambda>w. Goify w True \<noteq> w \<and> Goify w False = w @ ''_'') (map fst reserved_entries)"
  by code_simp

lemma reserved_all2:
  "list_all (\<lambda>w. w \<noteq> [] \<and> CHR ''a'' \<le> hd w \<and> hd w \<le> CHR ''z'') (map fst reserved_entries)"
  by code_simp

lemma reserved_in_entries: "reserved w \<noteq> None \<longleftrightarrow> w \<in> set (map fst reserved_entries)"
  by (simp add: reserved_def map_of_eq_None_iff)

lemma reserved_first_lower:
  assumes "reserved w \<noteq> None"
  shows "w \<noteq> [] \<and> CHR ''a'' \<le> hd w \<and> hd w \<le> CHR ''z''"
proof -
  from assms have "w \<in> set (map fst reserved_entries)" by (simp only: reserved_in_entries)
  with reserved_all2 show ?thesis unfolding list_all_iff by blast
qed

lemma reserved_Goify:
  assumes "reserved w \<noteq> None"
  shows "Goify w True \<noteq> w \<and> Goify w False = w @ ''_''"
proof -
  from assms have "w \<in> set (map fst reserved_entries)" by (simp only: reserved_in_entries)
  with reserved_all1 show ?thesis unfolding list_all_iff by blast
qed

lemma reserved_Nil: "reserved [] = None"
  using reserved_first_lower [of "[]"] by blast

lemma char_lower_iff: "CHR ''a'' \<le> x \<and> x \<le> CHR ''z'' \<longleftrightarrow> 0x61 \<le> rune_of x \<and> rune_of x \<le> 0x7A"
proof -
  have "(of_char x :: int) = int (of_char x)" by (simp add: of_char_def)
  then show ?thesis by (simp add: less_eq_char_def rune_of_def)
qed


lemma ToUpper_not_lower: "\<not> (0x61 \<le> ToUpper r \<and> ToUpper r \<le> 0x7A)"
  unfolding ToUpper_def by (auto split: if_splits)


lemma hd_written_True_not_lower:
  assumes "kept c" and "\<not> firstWritten st"
  shows "\<not> (CHR ''a'' \<le> hd (WriteRune [] (written True st c)) \<and>
            hd (WriteRune [] (written True st c)) \<le> CHR ''z'')"
proof -
  let ?r = "written True st c"
  let ?x = "hd (WriteRune [] ?r)"
  have r: "?r = ToUpper (rune_of c)" using assms(2) by (simp add: written_def)
  have "?x \<in> set (WriteRune [] ?r)" by (simp add: WriteRune_not_Nil)
  with written_range [OF assms(1), of True st] WriteRune_bytes [of ?x ?r]
  have "(?r < 0x80 \<and> (of_char ?x :: int) = ?r) \<or> 0x80 \<le> (of_char ?x :: int)" by auto
  with ToUpper_not_lower [of "rune_of c"] r
  have "\<not> (0x61 \<le> rune_of ?x \<and> rune_of ?x \<le> 0x7A)" by (auto simp: rune_of_def)
  then show ?thesis using char_lower_iff [of ?x] by blast
qed

lemma Goify_step_first_not_lower:
  assumes "(\<not> firstWritten st \<and> b st = []) \<or>
           (firstWritten st \<and> b st \<noteq> [] \<and> \<not> (CHR ''a'' \<le> hd (b st) \<and> hd (b st) \<le> CHR ''z''))"
  shows "(\<not> firstWritten (Goify_step True st c) \<and> b (Goify_step True st c) = []) \<or>
         (firstWritten (Goify_step True st c) \<and> b (Goify_step True st c) \<noteq> [] \<and>
          \<not> (CHR ''a'' \<le> hd (b (Goify_step True st c)) \<and> hd (b (Goify_step True st c)) \<le> CHR ''z''))"
proof (cases "kept c")
  case True
  show ?thesis
  proof (cases "firstWritten st")
    case False
    with assms have "b st = []" by simp
    with True hd_written_True_not_lower [OF True False] show ?thesis
      by (simp add: Goify_step_kept WriteRune_not_Nil)
  next
    case fw: True
    with assms have "b st \<noteq> []" "\<not> (CHR ''a'' \<le> hd (b st) \<and> hd (b st) \<le> CHR ''z'')" by simp_all
    with True show ?thesis
      by (simp add: Goify_step_kept WriteRune_append [of "b st"])
  qed
next
  case False
  with assms show ?thesis
    by (cases "c = CHR ''_''") (simp_all add: Goify_step_underscore Goify_step_dropped)
qed

lemma Goify_fold_first_not_lower:
  assumes "(\<not> firstWritten st \<and> b st = []) \<or>
           (firstWritten st \<and> b st \<noteq> [] \<and> \<not> (CHR ''a'' \<le> hd (b st) \<and> hd (b st) \<le> CHR ''z''))"
  shows "b (foldl (Goify_step True) st s) = [] \<or>
         \<not> (CHR ''a'' \<le> hd (b (foldl (Goify_step True) st s)) \<and>
            hd (b (foldl (Goify_step True) st s)) \<le> CHR ''z'')"
  using assms
proof (induction s arbitrary: st)
  case Nil
  then show ?case by auto
next
  case (Cons c s)
  from Goify_step_first_not_lower [OF Cons.prems] Cons.IH [of "Goify_step True st c"]
  show ?case by simp
qed

lemma Goify_loop_True_not_lower:
  "b (Goify_loop s True) = [] \<or>
   \<not> (CHR ''a'' \<le> hd (b (Goify_loop s True)) \<and> hd (b (Goify_loop s True)) \<le> CHR ''z'')"
  unfolding Goify_loop_def by (rule Goify_fold_first_not_lower) simp

lemma Goify_loop_True_not_reserved: "reserved (b (Goify_loop s True)) = None"
proof (rule ccontr)
  assume "reserved (b (Goify_loop s True)) \<noteq> None"
  from reserved_first_lower [OF this] Goify_loop_True_not_lower [of s] show False by blast
qed

lemma Goify_alt:
  "Goify s u = (if b (Goify_loop s u) = [] then ''_v''
                else b (Goify_loop s u) @ (if reserved (b (Goify_loop s u)) \<noteq> None then ''_'' else []))"
  by (simp add: Goify_def Let_def)


lemma Goify_loop_first:
  assumes "filter kept s = c # cs"
  shows "prefix (WriteRune [] (if u then ToUpper (rune_of c) else ToLower (rune_of c)))
           (b (Goify_loop s u))"
proof -
  from assms obtain pre post where
    s: "s = pre @ c # post" and pre: "\<forall>k \<in> set pre. \<not> kept k" and c: "kept c"
    by (auto simp: filter_eq_Cons_iff)
  let ?init = "\<lparr>b = [], firstWritten = False, nextUpper = False\<rparr>"
  let ?st = "foldl (Goify_step u) ?init pre"
  from Goify_fold_dropped [OF pre, of u ?init]
  have st: "b ?st = []" "\<not> firstWritten ?st" by simp_all
  have "b (Goify_step u ?st c) = WriteRune [] (if u then ToUpper (rune_of c) else ToLower (rune_of c))"
    using st by (simp add: Goify_step_kept [OF c] written_def)
  moreover have "prefix (b (Goify_step u ?st c)) (b (foldl (Goify_step u) (Goify_step u ?st c) post))"
    by (rule Goify_fold_prefix)
  ultimately show ?thesis by (simp add: Goify_loop_def s)
qed

lemma Goify_loop_next_upper:
  assumes "\<exists>k \<in> set pre. kept k" and "\<forall>k \<in> set mid. \<not> kept k" and "kept c"
  shows "prefix (WriteRune (b (Goify_loop pre u)) (ToUpper (rune_of c)))
           (b (Goify_loop (pre @ CHR ''_'' # mid @ c # post) u))"
proof -
  let ?init = "\<lparr>b = [], firstWritten = False, nextUpper = False\<rparr>"
  let ?st1 = "foldl (Goify_step u) ?init pre"
  let ?st2 = "foldl (Goify_step u) (Goify_step u ?st1 (CHR ''_'')) mid"
  have fw: "firstWritten ?st1" using assms(1) by (simp add: Goify_fold_firstWritten)
  from Goify_fold_dropped [OF assms(2), of u "Goify_step u ?st1 (CHR ''_'')"]
  have st2: "b ?st2 = b ?st1" "firstWritten ?st2" "nextUpper ?st2"
    using fw by (simp_all add: Goify_step_underscore)
  have "b (Goify_step u ?st2 c) = WriteRune (b ?st1) (ToUpper (rune_of c))"
    using st2 by (simp add: Goify_step_kept [OF assms(3)] written_def)
  moreover have "prefix (b (Goify_step u ?st2 c)) (b (foldl (Goify_step u) (Goify_step u ?st2 c) post))"
    by (rule Goify_fold_prefix)
  ultimately show ?thesis by (simp add: Goify_loop_def)
qed











subsection \<open>The shape of the result\<close>





subsection \<open>Reserved words and underscores\<close>

text \<open>
  C2. For every key \<open>w\<close> of \<open>reserved\<close> and every flag \<open>u\<close>, \<open>Goify w u\<close> is not
  \<open>w\<close>; with the flag off it is \<open>w\<close> followed by \<open>_\<close>. Whenever the text in the
  buffer after the loop is a key of \<open>reserved\<close>, the result is that text followed
  by \<open>_\<close>.
\<close>

theorem Goify_reserved_disambiguated:
  "(reserved w \<noteq> None \<longrightarrow> Goify w u \<noteq> w \<and> Goify w False = w @ ''_'') \<and>
   (reserved (b (Goify_loop s u)) \<noteq> None \<longrightarrow> Goify s u = b (Goify_loop s u) @ ''_'')"
proof (intro conjI impI)
  assume w: "reserved w \<noteq> None"
  from reserved_Goify [OF w] show "Goify w u \<noteq> w" by (cases u) simp_all
  from reserved_Goify [OF w] show "Goify w False = w @ ''_''" by simp
next
  assume r: "reserved (b (Goify_loop s u)) \<noteq> None"
  then have "b (Goify_loop s u) \<noteq> []" using reserved_Nil by auto
  with r show "Goify s u = b (Goify_loop s u) @ ''_''" by (simp add: Goify_alt)
qed

theorem Goify_reserved_disambiguated_witness:
  "reserved ''type'' = Some True \<and> Goify ''type'' True = ''Type'' \<and>
   Goify ''type'' False = ''type_'' \<and> Goify ''type'' False \<noteq> ''type'' \<and>
   b (Goify_loop ''type'' False) = ''type''"
proof -
  have r: "reserved ''type'' = Some True" and l: "b (Goify_loop ''type'' False) = ''type''"
    and t: "Goify ''type'' True = ''Type''"
    by code_simp+
  from r l t Goify_reserved_disambiguated [of "''type''" False "''type''"]
  show ?thesis by simp
qed

text \<open>
  C6. The buffer never holds an underscore, so the only underscores of the result
  are those of the placeholder and of the suffix. An underscore in the input only
  sets \<open>nextUpper\<close>. After some kept byte, an underscore and then bytes that are
  not kept, the next kept byte is written as its \<open>ToUpper\<close>, right after what was
  written before the underscore. The first kept byte is written in the case the
  flag asks for, whatever precedes it. \<open>Goify\<close> of \<open>user_id\<close> is \<open>UserId\<close> with
  the flag on and \<open>userId\<close> with the flag off.
\<close>

theorem Goify_underscore_capitalizes:
  "CHR ''_'' \<notin> set (b (Goify_loop s u)) \<and>
   Goify s u = (if b (Goify_loop s u) = [] then ''_v''
                else b (Goify_loop s u) @ (if reserved (b (Goify_loop s u)) \<noteq> None then ''_'' else [])) \<and>
   Goify_step u st (CHR ''_'') = st\<lparr>nextUpper := True\<rparr> \<and>
   ((\<exists>k \<in> set pre. kept k) \<and> (\<forall>k \<in> set mid. \<not> kept k) \<and> kept c \<longrightarrow>
      prefix (WriteRune (b (Goify_loop pre u)) (ToUpper (rune_of c)))
        (b (Goify_loop (pre @ CHR ''_'' # mid @ c # post) u))) \<and>
   ((\<forall>k \<in> set pre. \<not> kept k) \<and> kept c \<longrightarrow>
      prefix (WriteRune [] (if u then ToUpper (rune_of c) else ToLower (rune_of c)))
        (b (Goify_loop (pre @ c # post) u))) \<and>
   Goify ''user_id'' True = ''UserId'' \<and> Goify ''user_id'' False = ''userId''"
proof (intro conjI impI)
  show "CHR ''_'' \<notin> set (b (Goify_loop s u))" by (rule Goify_loop_no_underscore)
  show "Goify s u = (if b (Goify_loop s u) = [] then ''_v''
                else b (Goify_loop s u) @ (if reserved (b (Goify_loop s u)) \<noteq> None then ''_'' else []))"
    by (rule Goify_alt)
  show "Goify_step u st (CHR ''_'') = st\<lparr>nextUpper := True\<rparr>" by (rule Goify_step_underscore)
  show "Goify ''user_id'' True = ''UserId''" by code_simp
  show "Goify ''user_id'' False = ''userId''" by code_simp
next
  assume "(\<exists>k \<in> set pre. kept k) \<and> (\<forall>k \<in> set mid. \<not> kept k) \<and> kept c"
  then show "prefix (WriteRune (b (Goify_loop pre u)) (ToUpper (rune_of c)))
        (b (Goify_loop (pre @ CHR ''_'' # mid @ c # post) u))"
    using Goify_loop_next_upper [of pre mid c u post] by blast
next
  assume a: "(\<forall>k \<in> set pre. \<not> kept k) \<and> kept c"
  then have "filter kept (pre @ c # post) = c # filter kept post" by simp
  from Goify_loop_first [OF this, of u]
  show "prefix (WriteRune [] (if u then ToUpper (rune_of c) else ToLower (rune_of c)))
        (b (Goify_loop (pre @ c # post) u))" .
qed

theorem Goify_underscore_capitalizes_witness:
  "(\<exists>k \<in> set ''user''. kept k) \<and> kept (CHR ''i'') \<and>
   WriteRune (b (Goify_loop ''user'' True)) (ToUpper (rune_of (CHR ''i''))) = ''UserI'' \<and>
   prefix ''UserI'' (b (Goify_loop ''user_id'' True)) \<and>
   \<not> kept (CHR ''-'') \<and> kept (CHR ''u'') \<and>
   WriteRune [] (ToLower (rune_of (CHR ''u''))) = ''u'' \<and>
   prefix ''u'' (b (Goify_loop ''-user_id'' False))"
proof -
  have k: "kept (CHR ''u'')" "kept (CHR ''i'')" "\<not> kept (CHR ''-'')"
    and w: "WriteRune (b (Goify_loop ''user'' True)) (ToUpper (rune_of (CHR ''i''))) = ''UserI''"
      "WriteRune [] (ToLower (rune_of (CHR ''u''))) = ''u''"
    by code_simp+
  from k w
    Goify_underscore_capitalizes [of _ True _ "''user''" "[]" "CHR ''i''" "''d''"]
    Goify_underscore_capitalizes [of _ False _ "''-''" _ "CHR ''u''" "''ser_id''"]
  show ?thesis by simp
qed

text \<open>
  C9. With the flag on, neither the result of \<open>Goify\<close> nor the text in the buffer
  is a key of \<open>reserved\<close>, and the result is the buffer or the placeholder, with
  no suffix and no underscore from the buffer: every key of \<open>reserved\<close> begins with
  a lower case ASCII letter, and the first byte of the buffer is never one. So the
  buffer is a key of \<open>reserved\<close>, and the suffix appended, only with the flag off.
\<close>

theorem Goify_exported_never_reserved:
  "reserved (Goify s True) = None \<and>
   reserved (b (Goify_loop s True)) = None \<and>
   Goify s True = (if b (Goify_loop s True) = [] then ''_v'' else b (Goify_loop s True)) \<and>
   CHR ''_'' \<notin> set (b (Goify_loop s True)) \<and>
   (reserved w \<noteq> None \<longrightarrow> w \<noteq> [] \<and> CHR ''a'' \<le> hd w \<and> hd w \<le> CHR ''z'') \<and>
   (b (Goify_loop s True) \<noteq> [] \<longrightarrow>
      \<not> (CHR ''a'' \<le> hd (b (Goify_loop s True)) \<and> hd (b (Goify_loop s True)) \<le> CHR ''z'')) \<and>
   (reserved (b (Goify_loop s u)) \<noteq> None \<longrightarrow> \<not> u)"
proof (intro conjI impI)
  show nr: "reserved (b (Goify_loop s True)) = None" by (rule Goify_loop_True_not_reserved)
  show g: "Goify s True = (if b (Goify_loop s True) = [] then ''_v'' else b (Goify_loop s True))"
    by (simp add: Goify_alt nr)
  have "reserved ''_v'' = None" by code_simp
  with nr show "reserved (Goify s True) = None" by (simp add: g)
  show "CHR ''_'' \<notin> set (b (Goify_loop s True))" by (rule Goify_loop_no_underscore)
next
  assume "reserved w \<noteq> None"
  from reserved_first_lower [OF this]
  show "w \<noteq> []" "CHR ''a'' \<le> hd w" "hd w \<le> CHR ''z''" by simp_all
next
  assume "b (Goify_loop s True) \<noteq> []"
  with Goify_loop_True_not_lower [of s]
  show "\<not> (CHR ''a'' \<le> hd (b (Goify_loop s True)) \<and> hd (b (Goify_loop s True)) \<le> CHR ''z'')"
    by blast
next
  assume r: "reserved (b (Goify_loop s u)) \<noteq> None"
  show "\<not> u"
  proof
    assume u
    with r Goify_loop_True_not_reserved [of s] show False by simp
  qed
qed

theorem Goify_exported_never_reserved_witness:
  "reserved ''type'' = Some True \<and> hd ''type'' = CHR ''t'' \<and>
   b (Goify_loop ''type'' True) = ''Type'' \<and> Goify ''type'' True = ''Type'' \<and>
   reserved ''Type'' = None \<and> \<not> (CHR ''a'' \<le> CHR ''T'' \<and> CHR ''T'' \<le> CHR ''z'') \<and>
   b (Goify_loop ''type'' False) = ''type'' \<and> Goify ''type'' False = ''type_''"
proof -
  have r: "reserved ''type'' = Some True" and l: "b (Goify_loop ''type'' True) = ''Type''"
    and f: "b (Goify_loop ''type'' False) = ''type''" "Goify ''type'' False = ''type_''"
    by code_simp+
  from r l f Goify_exported_never_reserved [of "''type''" "''type''" False]
  show ?thesis by simp
qed

section \<open>Struct emission\<close>

lemma SourceCode_fields_cong:
  "map_of actual = map_of actual' \<Longrightarrow> IsRequired d = IsRequired d' \<Longrightarrow>
   SourceCode_fields d actual keys buffer = SourceCode_fields d' actual' keys buffer"
  by (induction keys arbitrary: buffer) (simp_all split: option.splits sum.splits)

lemma SourceCode_fields_closed:
  assumes "\<forall>n \<in> set keys. \<exists>a. map_of actual n = Some a \<and> TypeDef a = Inr (ty n)"
  shows "SourceCode_fields d actual keys buffer =
     Inr (buffer @ concat (map (\<lambda>name.
        [CHR 0x09] @ Goify name True @ '' '' @ ty name @ '' '' @ [CHR 0x60] @ ''json:'' @ [CHR 0x22]
          @ name @ (if IsRequired d name then [] else '',omitempty'') @ [CHR 0x22, CHR 0x60]
          @ ''\<newline>'') keys))"
  using assms
proof (induction keys arbitrary: buffer)
  case Nil
  show ?case by simp
next
  case (Cons name keys)
  from Cons.prems obtain a where a: "map_of actual name = Some a" "TypeDef a = Inr (ty name)"
    by auto
  from Cons.prems have "\<forall>n \<in> set keys. \<exists>a. map_of actual n = Some a \<and> TypeDef a = Inr (ty n)"
    by simp
  from Cons.IH [OF this] a show ?case by (simp del: TypeDef.simps)
qed

lemma map_of_consistent:
  assumes "\<forall>(n, a) \<in> set fs. TypeDef a = Inr (ty n)" and "n \<in> set (map fst fs)"
  shows "\<exists>a. map_of fs n = Some a \<and> TypeDef a = Inr (ty n)"
proof -
  from assms(2) obtain a where "map_of fs n = Some a"
    by (metis map_of_eq_None_iff not_None_eq set_map)
  moreover from this have "(n, a) \<in> set fs" by (rule map_of_SomeD)
  ultimately show ?thesis using assms(1) by auto
qed

lemma SourceCode_Object_closed:
  assumes "\<forall>(n, a) \<in> set fs. TypeDef a = Inr (ty n)"
  shows "SourceCode (AttributeDefinition (Object fs) req) =
     Inr (''struct {\<newline>'' @ concat (map (\<lambda>name.
        [CHR 0x09] @ Goify name True @ '' '' @ ty name @ '' '' @ [CHR 0x60] @ ''json:'' @ [CHR 0x22]
          @ name @ (if req name then [] else '',omitempty'') @ [CHR 0x22, CHR 0x60]
          @ ''\<newline>'') (sort (map fst fs))) @ ''}'')"
proof -
  have "\<forall>n \<in> set (sort (map fst fs)). \<exists>a. map_of fs n = Some a \<and> TypeDef a = Inr (ty n)"
    using map_of_consistent [OF assms] by simp
  from SourceCode_fields_closed [OF this, of "AttributeDefinition (Object fs) req" "''struct {\<newline>''"]
  show ?thesis by simp
qed

lemma sort_keys_perm:
  assumes "mset fs' = mset fs"
  shows "sort (map fst fs') = sort (map fst fs)"
proof -
  have "mset (map fst fs') = mset (map fst fs)" using assms by (metis mset_map)
  then have "mset (sort (map fst fs)) = mset (map fst fs')" by simp
  then show ?thesis by (rule properties_for_sort) simp
qed

lemma map_of_perm:
  assumes "distinct (map fst fs)" and "mset fs' = mset fs"
  shows "map_of fs' = map_of fs"
proof -
  have "mset (map fst fs') = mset (map fst fs)" using assms(2) by (metis mset_map)
  then have "distinct (map fst fs')" using assms(1) by (metis mset_eq_imp_distinct_iff)
  moreover have "set fs' = set fs" using assms(2) by (rule mset_eq_setD)
  ultimately show ?thesis using assms(1) by (simp add: map_of_inject_set)
qed


text \<open>
  C4. Two orders of the entries of the same object, a list with distinct keys and
  a permutation of it, give the same result in \<open>SourceCode\<close> and in \<open>TypeDef\<close>,
  a panic included: both give the same sorted keys, strictly ascending in the
  lexicographic order of the bytes, and the same lookup. When every field lowers
  to a type, the text is \<open>struct {\<close>, one line for each key in that ascending
  order, carrying the key itself in its tag, and \<open>}\<close>.
\<close>

theorem SourceCode_Object_order_independent:
  assumes "distinct (map fst fs)" and "mset fs' = mset fs"
  shows "SourceCode (AttributeDefinition (Object fs') req)
           = SourceCode (AttributeDefinition (Object fs) req) \<and>
         TypeDef (AttributeDefinition (Object fs') req)
           = TypeDef (AttributeDefinition (Object fs) req) \<and>
         sort (map fst fs') = sort (map fst fs) \<and>
         sorted_wrt (<) (sort (map fst fs)) \<and> set (sort (map fst fs)) = fst ` set fs \<and>
         ((\<forall>(n, a) \<in> set fs. TypeDef a = Inr (ty n)) \<longrightarrow>
            SourceCode (AttributeDefinition (Object fs) req) =
              Inr (''struct {\<newline>'' @ concat (map (\<lambda>name.
                [CHR 0x09] @ Goify name True @ '' '' @ ty name @ '' '' @ [CHR 0x60] @ ''json:''
                  @ [CHR 0x22] @ name @ (if req name then [] else '',omitempty'')
                  @ [CHR 0x22, CHR 0x60] @ ''\<newline>'') (sort (map fst fs))) @ ''}''))"
proof -
  have keys: "sort (map fst fs') = sort (map fst fs)" by (rule sort_keys_perm [OF assms(2)])
  have m: "map_of fs' = map_of fs" by (rule map_of_perm [OF assms])
  have "SourceCode_fields (AttributeDefinition (Object fs') req) fs' (sort (map fst fs)) ''struct {\<newline>''
      = SourceCode_fields (AttributeDefinition (Object fs) req) fs (sort (map fst fs)) ''struct {\<newline>''"
    by (rule SourceCode_fields_cong [OF m]) simp
  then have sc: "SourceCode (AttributeDefinition (Object fs') req)
           = SourceCode (AttributeDefinition (Object fs) req)"
    by (simp add: keys)
  have srt: "sorted_wrt (<) (sort (map fst fs))" using assms(1) by (simp add: strict_sorted_iff)
  from sc keys srt SourceCode_Object_closed [of fs ty req] show ?thesis by simp
qed

theorem SourceCode_Object_order_independent_witness:
  "SourceCode (AttributeDefinition (Object
      [(''id'', AttributeDefinition (Primitive IntegerKind) (\<lambda>n. False)),
       (''name'', AttributeDefinition (Primitive StringKind) (\<lambda>n. False))]) (\<lambda>n. n = ''id''))
   = SourceCode (AttributeDefinition (Object
      [(''name'', AttributeDefinition (Primitive StringKind) (\<lambda>n. False)),
       (''id'', AttributeDefinition (Primitive IntegerKind) (\<lambda>n. False))]) (\<lambda>n. n = ''id'')) \<and>
   sort (map fst [(''name'', AttributeDefinition (Primitive StringKind) (\<lambda>n. False)),
       (''id'', AttributeDefinition (Primitive IntegerKind) (\<lambda>n. False))]) = [''id'', ''name''] \<and>
   SourceCode (AttributeDefinition (Object
      [(''name'', AttributeDefinition (Primitive StringKind) (\<lambda>n. False)),
       (''id'', AttributeDefinition (Primitive IntegerKind) (\<lambda>n. False))]) (\<lambda>n. n = ''id''))
   = Inr (''struct {\<newline>'' @
          [CHR 0x09] @ ''Id int '' @ [CHR 0x60] @ ''json:'' @ [CHR 0x22] @ ''id''
            @ [CHR 0x22, CHR 0x60] @ ''\<newline>'' @
          [CHR 0x09] @ ''Name string '' @ [CHR 0x60] @ ''json:'' @ [CHR 0x22] @ ''name,omitempty''
            @ [CHR 0x22, CHR 0x60] @ ''\<newline>'' @ ''}'')"
proof -
  let ?name = "(''name'', AttributeDefinition (Primitive StringKind) (\<lambda>n. False))"
  let ?id = "(''id'', AttributeDefinition (Primitive IntegerKind) (\<lambda>n. False))"
  have d: "distinct (map fst [?name, ?id])" by simp
  have p: "mset [?id, ?name] = mset [?name, ?id]" by simp
  have t: "\<forall>(n, a) \<in> set [?name, ?id]. TypeDef a = Inr (if n = ''id'' then ''int'' else ''string'')"
    by simp
  have g: "Goify ''id'' True = ''Id''" "Goify ''name'' True = ''Name''" by code_simp+
  have s: "sort [''name'', ''id''] = [''id'', ''name'']" by simp
  from SourceCode_Object_order_independent [OF d p,
      of "\<lambda>n. n = ''id''" "\<lambda>n. if n = ''id'' then ''int'' else ''string''"] t
  show ?thesis by (simp add: g s del: SourceCode.simps)
qed

text \<open>
  C5. When every field lowers to a type, the struct has one line for each field
  name: a tab, \<open>Goify\<close> of the name, the type, and the tag. The tag holds the name
  as it is in the map; it is \<open>json:"name"\<close> between backquotes when
  \<open>IsRequired\<close> holds of the name, and \<open>json:"name,omitempty"\<close> when it does not.
\<close>

theorem SourceCode_Object_json_tags:
  assumes "\<forall>(n, a) \<in> set fs. TypeDef a = Inr (ty n)"
  shows "SourceCode (AttributeDefinition (Object fs) req) =
     Inr (''struct {\<newline>'' @ concat (map (\<lambda>name.
        [CHR 0x09] @ Goify name True @ '' '' @ ty name @ '' '' @
        (if req name then [CHR 0x60] @ ''json:'' @ [CHR 0x22] @ name @ [CHR 0x22, CHR 0x60]
         else [CHR 0x60] @ ''json:'' @ [CHR 0x22] @ name @ '',omitempty'' @ [CHR 0x22, CHR 0x60])
        @ ''\<newline>'') (sort (map fst fs))) @ ''}'')"
proof -
  have "(\<lambda>name. [CHR 0x09] @ Goify name True @ '' '' @ ty name @ '' '' @
        (if req name then [CHR 0x60] @ ''json:'' @ [CHR 0x22] @ name @ [CHR 0x22, CHR 0x60]
         else [CHR 0x60] @ ''json:'' @ [CHR 0x22] @ name @ '',omitempty'' @ [CHR 0x22, CHR 0x60])
        @ ''\<newline>'')
     = (\<lambda>name. [CHR 0x09] @ Goify name True @ '' '' @ ty name @ '' '' @ [CHR 0x60] @ ''json:''
          @ [CHR 0x22] @ name @ (if req name then [] else '',omitempty'')
          @ [CHR 0x22, CHR 0x60] @ ''\<newline>'')"
    by (rule ext) simp
  with SourceCode_Object_closed [OF assms, of req] show ?thesis by (simp del: SourceCode.simps)
qed

theorem SourceCode_Object_json_tags_witness:
  "TypeDef (AttributeDefinition (Primitive StringKind) (\<lambda>n. False)) = Inr ''string'' \<and>
   TypeDef (AttributeDefinition (Primitive IntegerKind) (\<lambda>n. False)) = Inr ''int'' \<and>
   SourceCode (AttributeDefinition (Object
      [(''user_name'', AttributeDefinition (Primitive StringKind) (\<lambda>n. False)),
       (''id'', AttributeDefinition (Primitive IntegerKind) (\<lambda>n. False))]) (\<lambda>n. n = ''id''))
   = Inr (''struct {\<newline>'' @
          [CHR 0x09] @ ''Id int '' @ [CHR 0x60] @ ''json:'' @ [CHR 0x22] @ ''id''
            @ [CHR 0x22, CHR 0x60] @ ''\<newline>'' @
          [CHR 0x09] @ ''UserName string '' @ [CHR 0x60] @ ''json:'' @ [CHR 0x22]
            @ ''user_name,omitempty'' @ [CHR 0x22, CHR 0x60] @ ''\<newline>'' @ ''}'')"
proof -
  let ?name = "(''user_name'', AttributeDefinition (Primitive StringKind) (\<lambda>n. False))"
  let ?id = "(''id'', AttributeDefinition (Primitive IntegerKind) (\<lambda>n. False))"
  have t: "\<forall>(n, a) \<in> set [?name, ?id]. TypeDef a = Inr (if n = ''id'' then ''int'' else ''string'')"
    by simp
  have g: "Goify ''id'' True = ''Id''" "Goify ''user_name'' True = ''UserName''" by code_simp+
  have s: "sort [''user_name'', ''id''] = [''id'', ''user_name'']" by simp
  from SourceCode_Object_json_tags [OF t, of "\<lambda>n. n = ''id''"]
  show ?thesis by (simp add: g s del: SourceCode.simps)
qed

end
